theory Spec2Isabelle
  imports Complex_Main "HOL-Library.Multiset"
begin

section \<open>JavaScript strings and the regular expressions of the codec classifier\<close>

text \<open>
  A JavaScript string is a sequence of code units. This development covers the strings
  whose code units are below 256 (ASCII and Latin-1), one \<^typ>\<open>char\<close> per code unit.
  On that range \<open>String.prototype.toLowerCase\<close> maps \<open>A\<close>..\<open>Z\<close> and the Latin-1
  capitals (192..222 without the multiplication sign 215) 32 positions up and leaves every
  other code unit alone.
\<close>

definition toLowerCase_char :: "char \<Rightarrow> char" where
  "toLowerCase_char c =
     (let n = (of_char c :: nat)
      in if (65 \<le> n \<and> n \<le> 90) \<or> (192 \<le> n \<and> n \<le> 222 \<and> n \<noteq> 215)
         then char_of (n + 32) else c)"

definition toLowerCase :: "string \<Rightarrow> string" where
  "toLowerCase s = map toLowerCase_char s"

text \<open>
  \<open>Canonicalize\<close> of the regular expression semantics with the \<open>i\<close> flag and without
  the \<open>u\<close> flag: the code unit of the upper-case form when that is one code unit. The
  result is a code unit value, since the capitals of 181 and 255 lie beyond Latin-1 (924
  and 376); the sharp s (223) has a two-letter capital and stays.
\<close>

definition Canonicalize :: "char \<Rightarrow> nat" where
  "Canonicalize c =
     (let n = (of_char c :: nat)
      in if (97 \<le> n \<and> n \<le> 122) \<or> (224 \<le> n \<and> n \<le> 254 \<and> n \<noteq> 247) then n - 32
         else if n = 181 then 924
         else if n = 255 then 376
         else n)"

text \<open>Line terminators, which the dot of a regular expression does not match.\<close>

definition isLineTerminator :: "char \<Rightarrow> bool" where
  "isLineTerminator c = ((of_char c :: nat) = 10 \<or> (of_char c :: nat) = 13)"

text \<open>
  The fragment of the pattern language that \<open>CODEC_ERROR_PATTERNS\<close> uses: literal
  characters, the dot, and the star after either.
\<close>

datatype atom = Lit char | Dot

datatype item = One atom | Star atom

type_synonym regex = "item list"

definition isSyntaxCharacter :: "char \<Rightarrow> bool" where
  "isSyntaxCharacter c = (c \<in> set ''^$.*+?()[]{}|'' \<or> c = CHR 0x5C)"

text \<open>
  \<open>new RegExp(pattern, 'i')\<close> on that fragment. \<open>None\<close> stands for a pattern that is
  not in the fragment; among those are the patterns on which the constructor throws
  (a star with nothing to repeat).
\<close>

fun RegExp :: "string \<Rightarrow> regex option" where
  "RegExp [] = Some []"
| "RegExp (c # cs) =
     (if c \<noteq> CHR ''.'' \<and> isSyntaxCharacter c then None
      else let a = (if c = CHR ''.'' then Dot else Lit c)
           in (case cs of
                 d # ds \<Rightarrow>
                   (if d = CHR ''*'' then map_option (\<lambda>r. Star a # r) (RegExp ds)
                    else map_option (\<lambda>r. One a # r) (RegExp cs))
               | [] \<Rightarrow> Some [One a]))"

text \<open>One pattern character against one input character, ignoring case.\<close>

fun atom_matches :: "atom \<Rightarrow> char \<Rightarrow> bool" where
  "atom_matches (Lit p) c = (Canonicalize c = Canonicalize p)"
| "atom_matches Dot c = (\<not> isLineTerminator c)"

text \<open>
  The backtracking matcher at a fixed start position; the star is greedy (it first tries
  to take one more character). With no capture groups that order cannot change whether a
  match exists.
\<close>

fun matches_here :: "regex \<Rightarrow> string \<Rightarrow> bool" where
  "matches_here [] s = True"
| "matches_here (One a # r) [] = False"
| "matches_here (One a # r) (c # s) = (atom_matches a c \<and> matches_here r s)"
| "matches_here (Star a # r) [] = matches_here r []"
| "matches_here (Star a # r) (c # s) =
     ((atom_matches a c \<and> matches_here (Star a # r) s) \<or> matches_here r (c # s))"

text \<open>\<open>RegExp.prototype.test\<close> without the global flag: a match at some start position.\<close>

fun regex_test :: "regex \<Rightarrow> string \<Rightarrow> bool" where
  "regex_test r [] = matches_here r []"
| "regex_test r (c # s) = (matches_here r (c # s) \<or> regex_test r s)"

section \<open>VideoSurface.tsx: the codec error classifier\<close>

datatype js_error = TypeError | SyntaxError

definition CODEC_ERROR_PATTERNS :: "string list" where
  "CODEC_ERROR_PATTERNS =
    [''exceeds_capabilities'',
     ''no_exceeds_capabilities'',
     ''decoder_exception'',
     ''decoder.*error'',
     ''codec.*error'',
     ''unsupported.*codec'',
     ''mediacodec.*exception'',
     ''omx.*error'',
     ''dolby.*vision'',
     ''hevc.*error'',
     ''no suitable decoder'',
     ''decoder initialization failed'',
     ''format.no_decoder'',
     ''no_decoder'',
     ''decoding_failed'',
     ''error_code_decoding'',
     ''exoplaybackexception'',
     ''mediacodecvideodecoder'',
     ''mediacodecvideodecoderexception'',
     ''decoder failed'']"

text \<open>
  \<open>patterns.some(pattern => new RegExp(pattern, 'i').test(lowerError))\<close>: the patterns
  in order, stopping at the first that matches; a pattern that does not compile throws.
\<close>

fun some_pattern :: "string list \<Rightarrow> string \<Rightarrow> js_error + bool" where
  "some_pattern [] lowerError = Inr False"
| "some_pattern (pattern # ps) lowerError =
     (case RegExp pattern of
        None \<Rightarrow> Inl SyntaxError
      | Some regex \<Rightarrow> if regex_test regex lowerError then Inr True else some_pattern ps lowerError)"

definition isCodecError :: "string \<Rightarrow> js_error + bool" where
  "isCodecError errorString =
     (let lowerError = toLowerCase errorString
      in some_pattern CODEC_ERROR_PATTERNS lowerError)"

section \<open>JavaScript values and the built-ins the error handler calls\<close>

text \<open>
  The payload of an ExoPlayer error is untyped in the source. The values modelled are the
  data a native event can carry: \<open>undefined\<close>, \<open>null\<close>, booleans, integers (of a
  magnitude that prints in plain decimal, below \<open>10^21\<close>), strings, arrays and plain
  objects (the own properties in key order, no key twice). Functions, symbols, fractions
  and cyclic objects are left out.
\<close>

datatype jsval =
    JUndefined
  | JNull
  | JBool bool
  | JNum int
  | JStr string
  | JArr "jsval list"
  | JObj "(string \<times> jsval) list"

text \<open>
  \<open>v?.k\<close> for the property names the handler reads (\<open>error\<close>, \<open>errorString\<close>,
  \<open>errorCode\<close>, \<open>nativeStackAndroid\<close>, \<open>message\<close>): none of them is inherited by a
  string, a number, a boolean or an array, so only an object with that own property
  answers.
\<close>

fun opt_get :: "jsval \<Rightarrow> string \<Rightarrow> jsval" where
  "opt_get (JObj kvs) k = (case map_of kvs k of Some v \<Rightarrow> v | None \<Rightarrow> JUndefined)"
| "opt_get _ k = JUndefined"

fun truthy :: "jsval \<Rightarrow> bool" where
  "truthy JUndefined = False"
| "truthy JNull = False"
| "truthy (JBool b) = b"
| "truthy (JNum n) = (n \<noteq> 0)"
| "truthy (JStr s) = (s \<noteq> [])"
| "truthy (JArr xs) = True"
| "truthy (JObj kvs) = True"

fun is_string :: "jsval \<Rightarrow> bool" where
  "is_string (JStr s) = True"
| "is_string _ = False"

fun digits :: "nat \<Rightarrow> string" where
  "digits n = (if n < 10 then [char_of (48 + n)] else digits (n div 10) @ [char_of (48 + n mod 10)])"

definition Number_toString :: "int \<Rightarrow> string" where
  "Number_toString n = (if n < 0 then CHR ''-'' # digits (nat (- n)) else digits (nat n))"

text \<open>\<open>Array.prototype.join\<close> on strings, and on results that may have thrown.\<close>

fun join_strings :: "string \<Rightarrow> string list \<Rightarrow> string" where
  "join_strings sep [] = []"
| "join_strings sep [x] = x"
| "join_strings sep (x # y # ys) = x @ sep @ join_strings sep (y # ys)"

fun sequence_results :: "(js_error + 'a) list \<Rightarrow> js_error + 'a list" where
  "sequence_results [] = Inr []"
| "sequence_results (Inl e # rs) = Inl e"
| "sequence_results (Inr x # rs) =
     (case sequence_results rs of Inl e \<Rightarrow> Inl e | Inr xs \<Rightarrow> Inr (x # xs))"

definition join_results :: "string \<Rightarrow> (js_error + string) list \<Rightarrow> js_error + string" where
  "join_results sep rs =
     (case sequence_results rs of Inl e \<Rightarrow> Inl e | Inr xs \<Rightarrow> Inr (join_strings sep xs))"

text \<open>
  \<open>ToString\<close>: an array joins its elements with a comma, \<open>undefined\<close> and \<open>null\<close>
  elements giving the empty string; an object is \<open>[object Object]\<close> unless an own
  \<open>toString\<close> property hides the inherited method, and then the conversion throws, as
  no value of the model is callable.
\<close>

fun ToString :: "jsval \<Rightarrow> js_error + string" where
  "ToString JUndefined = Inr ''undefined''"
| "ToString JNull = Inr ''null''"
| "ToString (JBool b) = Inr (if b then ''true'' else ''false'')"
| "ToString (JNum n) = Inr (Number_toString n)"
| "ToString (JStr s) = Inr s"
| "ToString (JArr xs) =
     join_results '',''
       (map (\<lambda>x. if x = JUndefined \<or> x = JNull then Inr [] else ToString x) xs)"
| "ToString (JObj kvs) =
     (if map_of kvs ''toString'' \<noteq> None then Inl TypeError else Inr ''[object Object]'')"

definition Array_join :: "string \<Rightarrow> jsval list \<Rightarrow> js_error + string" where
  "Array_join sep xs =
     join_results sep
       (map (\<lambda>x. if x = JUndefined \<or> x = JNull then Inr [] else ToString x) xs)"

text \<open>\<open>JSON.stringify(value)\<close> with no replacer and no indentation.\<close>

definition hex_digit :: "nat \<Rightarrow> char" where
  "hex_digit n = (if n < 10 then char_of (48 + n) else char_of (87 + n))"

definition quote_char :: "char \<Rightarrow> string" where
  "quote_char c =
     (let n = (of_char c :: nat)
      in if n = 8 then [CHR 0x5C, CHR ''b'']
         else if n = 9 then [CHR 0x5C, CHR ''t'']
         else if n = 10 then [CHR 0x5C, CHR ''n'']
         else if n = 12 then [CHR 0x5C, CHR ''f'']
         else if n = 13 then [CHR 0x5C, CHR ''r'']
         else if n = 34 then [CHR 0x5C, CHR 0x22]
         else if n = 92 then [CHR 0x5C, CHR 0x5C]
         else if n < 32 then [CHR 0x5C, CHR ''u'', CHR ''0'', CHR ''0'',
                              hex_digit (n div 16), hex_digit (n mod 16)]
         else [c])"

definition QuoteJSONString :: "string \<Rightarrow> string" where
  "QuoteJSONString s = [CHR 0x22] @ concat (map quote_char s) @ [CHR 0x22]"

fun JSON_stringify :: "jsval \<Rightarrow> string option" where
  "JSON_stringify JUndefined = None"
| "JSON_stringify JNull = Some ''null''"
| "JSON_stringify (JBool b) = Some (if b then ''true'' else ''false'')"
| "JSON_stringify (JNum n) = Some (Number_toString n)"
| "JSON_stringify (JStr s) = Some (QuoteJSONString s)"
| "JSON_stringify (JArr xs) =
     Some (''['' @
           join_strings '',''
             (map (\<lambda>x. case JSON_stringify x of None \<Rightarrow> ''null'' | Some t \<Rightarrow> t) xs) @
           '']'')"
| "JSON_stringify (JObj kvs) =
     Some (''{'' @
           join_strings '',''
             (concat (map (\<lambda>(k, v). case JSON_stringify v of
                                        None \<Rightarrow> []
                                      | Some t \<Rightarrow> [QuoteJSONString k @ '':'' @ t]) kvs)) @
           ''}'')"

section \<open>VideoSurface.tsx: the handlers of the two engines\<close>

text \<open>
  The calls a handler makes on the callbacks it was given, in order, with the fields of
  the payload it builds: \<open>onLoad{duration, naturalSize{width, height}, audioTracks,
  textTracks}\<close> (the last two absent when the MPV handler builds it),
  \<open>onProgress{currentTime, playableDuration}\<close>, \<open>onSeek{currentTime}\<close>,
  \<open>onError{error{errorString}}\<close>, \<open>onBuffer{isBuffering}\<close> and
  \<open>onTracksChanged{audioTracks, subtitleTracks}\<close>. A track of a load event has the
  fields \<open>index\<close>, \<open>title\<close> and \<open>language\<close>, a track passed on has \<open>id\<close>,
  \<open>name\<close> and \<open>language\<close>.
\<close>

datatype natural_size = NaturalSize real real

datatype track = Track "real option" "string option" "string option"

datatype track_info = TrackInfo real string "string option"

datatype callback =
    OnLoad real natural_size "track list option" "track list option"
  | OnProgress real real
  | OnSeek real
  | OnEnd
  | OnError string
  | OnBuffer bool
  | OnCodecError
  | OnTracksChanged "track_info list" "track_info list"

text \<open>
  The props of the surface that decide what a handler does: \<open>useExoPlayer\<close> (optional,
  \<open>true\<close> when absent) and whether the optional callbacks \<open>onCodecError\<close> and
  \<open>onTracksChanged\<close> were passed.
\<close>

record surface_props =
  useExoPlayer :: "bool option"
  onCodecError :: bool
  onTracksChanged :: bool

subsection \<open>MPV handlers\<close>

datatype mpv_load_data = MpvLoadData real real real

datatype mpv_progress_data = MpvProgressData real real

fun handleMpvLoad :: "mpv_load_data \<Rightarrow> callback list" where
  "handleMpvLoad (MpvLoadData duration width height) =
     [OnLoad duration (NaturalSize width height) None None]"

fun handleMpvProgress :: "mpv_progress_data \<Rightarrow> callback list" where
  "handleMpvProgress (MpvProgressData currentTime duration) =
     [OnProgress currentTime currentTime]"

definition handleMpvError :: "string \<Rightarrow> callback list" where
  "handleMpvError error = [OnError error]"

definition handleMpvEnd :: "callback list" where
  "handleMpvEnd = [OnEnd]"

subsection \<open>ExoPlayer handlers\<close>

datatype exo_load_data =
  ExoLoadData real "natural_size option" "track list option" "track list option"

datatype exo_progress_data = ExoProgressData real "real option"

text \<open>\<open>t.title || t.language || `Track ${i + 1}`\<close> and \<open>t.index ?? i\<close>.\<close>

fun map_tracks :: "nat \<Rightarrow> track list \<Rightarrow> track_info list" where
  "map_tracks i [] = []"
| "map_tracks i (Track index title language # ts) =
     TrackInfo
       (case index of Some n \<Rightarrow> n | None \<Rightarrow> real i)
       (let fallback = (case language of
                          Some l \<Rightarrow> if l \<noteq> [] then l else ''Track '' @ digits (i + 1)
                        | None \<Rightarrow> ''Track '' @ digits (i + 1))
        in case title of Some t \<Rightarrow> if t \<noteq> [] then t else fallback | None \<Rightarrow> fallback)
       language
     # map_tracks (Suc i) ts"

fun handleExoLoad :: "surface_props \<Rightarrow> exo_load_data \<Rightarrow> callback list" where
  "handleExoLoad props (ExoLoadData duration naturalSize audioTracks textTracks) =
     (let audio = (case audioTracks of Some ts \<Rightarrow> map_tracks 0 ts | None \<Rightarrow> []);
          subtitle = (case textTracks of Some ts \<Rightarrow> map_tracks 0 ts | None \<Rightarrow> [])
      in (if onTracksChanged props \<and> (length audio > 0 \<or> length subtitle > 0)
          then [OnTracksChanged audio subtitle] else []) @
         [OnLoad duration
            (case naturalSize of Some sz \<Rightarrow> sz | None \<Rightarrow> NaturalSize 1920 1080)
            audioTracks textTracks])"

fun handleExoProgress :: "exo_progress_data \<Rightarrow> callback list" where
  "handleExoProgress (ExoProgressData currentTime playableDuration) =
     [OnProgress currentTime
        (case playableDuration of
           Some p \<Rightarrow> if p \<noteq> 0 then p else currentTime
         | None \<Rightarrow> currentTime)]"

text \<open>
  Lines 226 to 249 of \<open>handleExoError\<close>: the parts found in the payload, joined with a
  space, or the JSON text of the payload when there is none. The result is \<open>None\<close>
  when \<open>JSON.stringify\<close> answers \<open>undefined\<close>.
\<close>

definition extractErrorString :: "jsval \<Rightarrow> js_error + string option" where
  "extractErrorString error =
     (let inner = opt_get error ''error'';
          parts1 = (if is_string inner then [inner] else []);
          parts2 = parts1 @ (if truthy (opt_get inner ''errorString'')
                             then [opt_get inner ''errorString''] else [])
      in case (if truthy (opt_get inner ''errorCode'')
               then map_sum id (\<lambda>s. [JStr s]) (ToString (opt_get inner ''errorCode''))
               else Inr []) of
           Inl e \<Rightarrow> Inl e
         | Inr code \<Rightarrow>
             (let parts3 = parts2 @ code;
                  parts4 = parts3 @ (if is_string error then [error] else [])
              in case (if truthy (opt_get error ''nativeStackAndroid'')
                       then (case opt_get error ''nativeStackAndroid'' of
                               JArr frames \<Rightarrow> map_sum id (\<lambda>s. [JStr s]) (Array_join '' '' frames)
                             | _ \<Rightarrow> Inl TypeError)
                       else Inr []) of
                   Inl e \<Rightarrow> Inl e
                 | Inr stack \<Rightarrow>
                     (let parts5 = parts4 @ stack;
                          errorParts = parts5 @ (if truthy (opt_get error ''message'')
                                                 then [opt_get error ''message''] else [])
                      in if length errorParts > 0
                         then map_sum id Some (Array_join '' '' errorParts)
                         else Inr (JSON_stringify error))))"

text \<open>
  The rest of \<open>handleExoError\<close>. \<open>isCodecError\<close> of \<open>undefined\<close> throws, since it
  calls \<open>toLowerCase\<close> on its argument. The logging of the handlers is left out.
\<close>

definition handleExoError :: "surface_props \<Rightarrow> jsval \<Rightarrow> js_error + callback list" where
  "handleExoError props error =
     (case extractErrorString error of
        Inl e \<Rightarrow> Inl e
      | Inr None \<Rightarrow> Inl TypeError
      | Inr (Some errorString) \<Rightarrow>
          (case isCodecError errorString of
             Inl e \<Rightarrow> Inl e
           | Inr True \<Rightarrow> Inr (if onCodecError props then [OnCodecError] else [])
           | Inr False \<Rightarrow> Inr [OnError errorString]))"

definition handleExoBuffer :: "bool \<Rightarrow> callback list" where
  "handleExoBuffer isBuffering = [OnBuffer isBuffering]"

definition handleExoEnd :: "callback list" where
  "handleExoEnd = [OnEnd]"

definition handleExoSeek :: "real \<Rightarrow> callback list" where
  "handleExoSeek currentTime = [OnSeek currentTime]"

subsection \<open>The rendered player and the events it delivers\<close>

text \<open>
  The native render: \<open>Video\<close> (ExoPlayer) when \<open>useExoPlayer\<close> holds, \<open>MpvPlayer\<close>
  otherwise; both modules are loaded on a native platform.
\<close>

datatype engine = ExoPlayer | MPV

definition active_engine :: "surface_props \<Rightarrow> engine" where
  "active_engine props =
     (if (case useExoPlayer props of None \<Rightarrow> True | Some b \<Rightarrow> b) then ExoPlayer else MPV)"

datatype exo_event =
    ExoLoad exo_load_data
  | ExoProgress exo_progress_data
  | ExoEnd
  | ExoError jsval
  | ExoBuffer bool
  | ExoSeek real

datatype mpv_event =
    MpvLoad mpv_load_data
  | MpvProgress mpv_progress_data
  | MpvEnd
  | MpvError string
  | MpvTracksChanged "track_info list" "track_info list"
  | MpvSeek real
  | MpvBuffer bool

text \<open>The props passed to \<open>Video\<close>: a handler for each of its six events.\<close>

fun Video_event :: "surface_props \<Rightarrow> exo_event \<Rightarrow> js_error + callback list" where
  "Video_event props (ExoLoad d) = Inr (handleExoLoad props d)"
| "Video_event props (ExoProgress d) = Inr (handleExoProgress d)"
| "Video_event props ExoEnd = Inr handleExoEnd"
| "Video_event props (ExoError e) = handleExoError props e"
| "Video_event props (ExoBuffer b) = Inr (handleExoBuffer b)"
| "Video_event props (ExoSeek t) = Inr (handleExoSeek t)"

text \<open>
  The props passed to \<open>MpvPlayer\<close>: \<open>onLoad\<close>, \<open>onProgress\<close>, \<open>onEnd\<close>,
  \<open>onError\<close>, and the caller's \<open>onTracksChanged\<close> as it is. No \<open>onSeek\<close> and no
  \<open>onBuffer\<close> is passed, so a seek or a buffering notification of that player reaches
  no handler.
\<close>

fun MpvPlayer_event :: "surface_props \<Rightarrow> mpv_event \<Rightarrow> js_error + callback list" where
  "MpvPlayer_event props (MpvLoad d) = Inr (handleMpvLoad d)"
| "MpvPlayer_event props (MpvProgress d) = Inr (handleMpvProgress d)"
| "MpvPlayer_event props MpvEnd = Inr handleMpvEnd"
| "MpvPlayer_event props (MpvError e) = Inr (handleMpvError e)"
| "MpvPlayer_event props (MpvTracksChanged a t) =
     Inr (if onTracksChanged props then [OnTracksChanged a t] else [])"
| "MpvPlayer_event props (MpvSeek t) = Inr []"
| "MpvPlayer_event props (MpvBuffer b) = Inr []"

text \<open>An event of a player that is not the rendered one does not occur: nothing is called.\<close>

datatype engine_event = FromExo exo_event | FromMpv mpv_event

fun VideoSurface_event :: "surface_props \<Rightarrow> engine_event \<Rightarrow> js_error + callback list" where
  "VideoSurface_event props (FromExo ev) =
     (if active_engine props = ExoPlayer then Video_event props ev else Inr [])"
| "VideoSurface_event props (FromMpv ev) =
     (if active_engine props = MPV then MpvPlayer_event props ev else Inr [])"

subsection \<open>A playback session\<close>

text \<open>
  Modelled from the spec: the owner of the surface, which holds the engine selection and
  is not among the sources, answers \<open>onCodecError\<close> with the engine fallback: it flips
  the selection to the fallback engine and renders the surface again with it.
\<close>

definition engineFallback :: "surface_props \<Rightarrow> surface_props" where
  "engineFallback props = props\<lparr>useExoPlayer := Some False\<rparr>"

text \<open>
  Modelled from the spec: one load attempt as the sequence of events that the players
  deliver, the owner running the fallback as soon as \<open>onCodecError\<close> was called. The
  result is the props at the end and all the calls made; a handler that throws ends the
  session.
\<close>

fun run_session ::
  "surface_props \<Rightarrow> engine_event list \<Rightarrow> js_error + (surface_props \<times> callback list)" where
  "run_session props [] = Inr (props, [])"
| "run_session props (ev # evs) =
     (case VideoSurface_event props ev of
        Inl e \<Rightarrow> Inl e
      | Inr calls \<Rightarrow>
          (case run_session (if OnCodecError \<in> set calls then engineFallback props else props) evs of
             Inl e \<Rightarrow> Inl e
           | Inr (props', rest) \<Rightarrow> Inr (props', calls @ rest)))"

section \<open>tvFocus.ts: the focus presets\<close>

datatype TVFocusPresetName = card | poster | pill | button | icon | listRow

record TVFocusPreset =
  focusScale :: real
  focusRingWidth :: real
  focusBorderRadius :: real

fun tvFocusPresets :: "TVFocusPresetName \<Rightarrow> TVFocusPreset" where
  "tvFocusPresets card = \<lparr>focusScale = 1.05, focusRingWidth = 3, focusBorderRadius = 16\<rparr>"
| "tvFocusPresets poster = \<lparr>focusScale = 1.06, focusRingWidth = 3, focusBorderRadius = 12\<rparr>"
| "tvFocusPresets pill = \<lparr>focusScale = 1.04, focusRingWidth = 3, focusBorderRadius = 999\<rparr>"
| "tvFocusPresets button = \<lparr>focusScale = 1.04, focusRingWidth = 3, focusBorderRadius = 18\<rparr>"
| "tvFocusPresets icon = \<lparr>focusScale = 1.06, focusRingWidth = 3, focusBorderRadius = 999\<rparr>"
| "tvFocusPresets listRow = \<lparr>focusScale = 1.03, focusRingWidth = 3, focusBorderRadius = 14\<rparr>"

section \<open>FocusablePressable.tsx: the two focusable controls\<close>

text \<open>
  The props that the focus behaviour reads. \<open>onFocus\<close> and \<open>onBlur\<close> say whether the
  caller passed the callback; \<open>activeOpacity\<close> belongs to \<open>FocusableTouchableOpacity\<close>
  only. Colours, layout styles and children are left out.
\<close>

record focusable_props =
  enableTVFocus :: "bool option"
  preset :: "TVFocusPresetName option"
  focusBorderRadius :: "real option"
  focusScale :: "real option"
  focusRingWidth :: "real option"
  onFocus :: bool
  onBlur :: bool
  focusable :: "bool option"
  activeOpacity :: "real option"

text \<open>\<open>enableTVFocus = Platform.isTV\<close>: the default of the prop is the platform flag.\<close>

definition enabled :: "bool \<Rightarrow> focusable_props \<Rightarrow> bool" where
  "enabled isTV props = (case enableTVFocus props of Some b \<Rightarrow> b | None \<Rightarrow> isTV)"

definition resolvedPreset :: "focusable_props \<Rightarrow> TVFocusPreset option" where
  "resolvedPreset props = (case preset props of Some name \<Rightarrow> Some (tvFocusPresets name) | None \<Rightarrow> None)"

definition resolvedBorderRadius :: "focusable_props \<Rightarrow> real" where
  "resolvedBorderRadius props =
     (case focusBorderRadius props of
        Some r \<Rightarrow> r
      | None \<Rightarrow> (case resolvedPreset props of
                   Some p \<Rightarrow> TVFocusPreset.focusBorderRadius p
                 | None \<Rightarrow> 12))"

definition resolvedScale :: "focusable_props \<Rightarrow> real" where
  "resolvedScale props =
     (case focusScale props of
        Some x \<Rightarrow> x
      | None \<Rightarrow> (case resolvedPreset props of
                   Some p \<Rightarrow> TVFocusPreset.focusScale p
                 | None \<Rightarrow> 1.06))"

definition resolvedRingWidth :: "focusable_props \<Rightarrow> real" where
  "resolvedRingWidth props =
     (case focusRingWidth props of
        Some w \<Rightarrow> w
      | None \<Rightarrow> (case resolvedPreset props of
                   Some p \<Rightarrow> TVFocusPreset.focusRingWidth p
                 | None \<Rightarrow> 3))"

text \<open>
  The state of a control: \<open>isFocused\<close>, and the animated value \<open>focusProgress\<close> with
  the timing animation that runs on it, if any. A timing animation holds the value it
  started from, its \<open>toValue\<close> and the milliseconds elapsed; starting one replaces the
  one that runs and starts from the value reached. Its duration is 140 ms and its easing
  \<open>Easing.out(Easing.cubic)\<close>.
\<close>

datatype timing = Timing real real real

record focus_state =
  isFocused :: bool
  focusProgress :: real
  animation :: "timing option"

definition initial_state :: focus_state where
  "initial_state = \<lparr>isFocused = False, focusProgress = 0, animation = None\<rparr>"

definition easing :: "real \<Rightarrow> real" where
  "easing t = 1 - (1 - t) ^ 3"

definition animateTo :: "real \<Rightarrow> focus_state \<Rightarrow> focus_state" where
  "animateTo toValue st = st\<lparr>animation := Some (Timing (focusProgress st) toValue 0)\<rparr>"

text \<open>The passing of \<open>dt\<close> milliseconds.\<close>

definition advance :: "real \<Rightarrow> focus_state \<Rightarrow> focus_state" where
  "advance dt st =
     (case animation st of
        None \<Rightarrow> st
      | Some (Timing fromValue toValue elapsed) \<Rightarrow>
          if elapsed + dt \<ge> 140
          then st\<lparr>focusProgress := toValue, animation := None\<rparr>
          else st\<lparr>focusProgress := fromValue + easing ((elapsed + dt) / 140) * (toValue - fromValue),
                  animation := Some (Timing fromValue toValue (elapsed + dt))\<rparr>)"

text \<open>The target of the animation in flight, or the value at rest.\<close>

definition target :: "focus_state \<Rightarrow> real" where
  "target st = (case animation st of Some (Timing fromValue toValue elapsed) \<Rightarrow> toValue
                                   | None \<Rightarrow> focusProgress st)"

datatype 'e focus_call = OnFocus 'e | OnBlur 'e

definition handleFocus ::
  "bool \<Rightarrow> focusable_props \<Rightarrow> 'e \<Rightarrow> focus_state \<Rightarrow> focus_state \<times> 'e focus_call list" where
  "handleFocus isTV props e st =
     ((if enabled isTV props then animateTo 1 (st\<lparr>isFocused := True\<rparr>) else st),
      (if onFocus props then [OnFocus e] else []))"

definition handleBlur ::
  "bool \<Rightarrow> focusable_props \<Rightarrow> 'e \<Rightarrow> focus_state \<Rightarrow> focus_state \<times> 'e focus_call list" where
  "handleBlur isTV props e st =
     ((if enabled isTV props then animateTo 0 (st\<lparr>isFocused := False\<rparr>) else st),
      (if onBlur props then [OnBlur e] else []))"

text \<open>
  What a control renders, as far as focus goes: whether the touchable is wrapped in an
  animated view, the scale transform of that view, the shadow, the ring overlay (border
  width, border radius, opacity, scale), the inner highlight (lit or not), the
  \<open>focusable\<close> prop handed down, and the opacity on press.
\<close>

datatype ring = Ring real real real real

record rendered =
  wrapper :: bool
  scale :: "real option"
  shadow :: bool
  focusRing :: "ring option"
  highlight :: "bool option"
  focusable_out :: "bool option"
  pressOpacity :: "real option"

text \<open>\<open>focusProgress.interpolate({inputRange: [0, 1], outputRange: [a, b]})\<close>.\<close>

definition interpolate :: "real \<Rightarrow> real \<Rightarrow> real \<Rightarrow> real" where
  "interpolate x a b = a + x * (b - a)"

definition containerAnimatedStyle :: "bool \<Rightarrow> focusable_props \<Rightarrow> focus_state \<Rightarrow> real option" where
  "containerAnimatedStyle isTV props st =
     (if \<not> enabled isTV props then None
      else Some (interpolate (focusProgress st) 1 (resolvedScale props)))"

definition ringAnimatedStyle :: "bool \<Rightarrow> focusable_props \<Rightarrow> focus_state \<Rightarrow> (real \<times> real) option" where
  "ringAnimatedStyle isTV props st =
     (if \<not> enabled isTV props then None
      else Some (focusProgress st, interpolate (focusProgress st) 0.985 1))"

definition ring_overlay :: "bool \<Rightarrow> focusable_props \<Rightarrow> focus_state \<Rightarrow> ring" where
  "ring_overlay isTV props st =
     (case ringAnimatedStyle isTV props st of
        Some (opacity, sc) \<Rightarrow> Ring (resolvedRingWidth props) (resolvedBorderRadius props) opacity sc
      | None \<Rightarrow> Ring (resolvedRingWidth props) (resolvedBorderRadius props) 1 1)"

definition FocusablePressable :: "bool \<Rightarrow> focusable_props \<Rightarrow> focus_state \<Rightarrow> rendered" where
  "FocusablePressable isTV props st =
     \<lparr>wrapper = True,
      scale = containerAnimatedStyle isTV props st,
      shadow = (isFocused st \<and> enabled isTV props),
      focusRing = (if enabled isTV props then Some (ring_overlay isTV props st) else None),
      highlight = (if enabled isTV props then Some (isFocused st) else None),
      focusable_out = (case focusable props of Some f \<Rightarrow> Some f | None \<Rightarrow> Some (enabled isTV props)),
      pressOpacity = None\<rparr>"

definition finalActiveOpacity :: "bool \<Rightarrow> focusable_props \<Rightarrow> real" where
  "finalActiveOpacity isTV props =
     (if enabled isTV props then 1
      else (case activeOpacity props of Some x \<Rightarrow> x | None \<Rightarrow> 0.7))"

definition FocusableTouchableOpacity :: "bool \<Rightarrow> focusable_props \<Rightarrow> focus_state \<Rightarrow> rendered" where
  "FocusableTouchableOpacity isTV props st =
     (if \<not> enabled isTV props
      then \<lparr>wrapper = False, scale = None, shadow = False, focusRing = None, highlight = None,
            focusable_out = focusable props,
            pressOpacity = Some (finalActiveOpacity isTV props)\<rparr>
      else \<lparr>wrapper = True,
            scale = containerAnimatedStyle isTV props st,
            shadow = isFocused st,
            focusRing = Some (ring_overlay isTV props st),
            highlight = Some (isFocused st),
            focusable_out = (case focusable props of Some f \<Rightarrow> Some f
                                                   | None \<Rightarrow> Some (enabled isTV props)),
            pressOpacity = Some (finalActiveOpacity isTV props)\<rparr>)"

section \<open>The classifier as the specification words it\<close>

text \<open>
  The specification speaks of a string that contains, in any character case, a match of a
  pattern. Two characters are the same letter in any case when they have the same
  lower-case form; the dot stands for any character that is not a line terminator; a
  starred atom stands for any run of characters that each match the atom.
\<close>

fun spec_atom :: "atom \<Rightarrow> char \<Rightarrow> bool" where
  "spec_atom (Lit p) c = (toLowerCase_char c = toLowerCase_char p)"
| "spec_atom Dot c = (\<not> isLineTerminator c)"

fun in_lang :: "regex \<Rightarrow> string \<Rightarrow> bool" where
  "in_lang [] w = (w = [])"
| "in_lang (One a # r) w = (\<exists>c v. w = c # v \<and> spec_atom a c \<and> in_lang r v)"
| "in_lang (Star a # r) w = (\<exists>u v. w = u @ v \<and> list_all (spec_atom a) u \<and> in_lang r v)"

definition contains_match :: "string \<Rightarrow> string \<Rightarrow> bool" where
  "contains_match pattern s =
     (\<exists>r pre w post. RegExp pattern = Some r \<and> s = pre @ w @ post \<and> in_lang r w)"

text \<open>
  Two notions for the proofs: a match that starts at the first character, and a match that
  starts anywhere. The last definition inverts \<open>Canonicalize\<close> up to case.
\<close>

definition prefix_match :: "regex \<Rightarrow> string \<Rightarrow> bool" where
  "prefix_match r s = (\<exists>w post. s = w @ post \<and> in_lang r w)"

definition some_match :: "regex \<Rightarrow> string \<Rightarrow> bool" where
  "some_match r s = (\<exists>pre w post. s = pre @ w @ post \<and> in_lang r w)"

definition lower_of_canon :: "nat \<Rightarrow> nat" where
  "lower_of_canon k =
     (if (65 \<le> k \<and> k \<le> 90) \<or> (192 \<le> k \<and> k \<le> 222 \<and> k \<noteq> 215) then k + 32
      else if k = 924 then 181 else if k = 376 then 255 else k)"

section \<open>Sample inputs\<close>

text \<open>
  Props for the examples: a surface on ExoPlayer and one on MPV, both with
  \<open>onCodecError\<close> passed, and a focusable control that leaves \<open>enableTVFocus\<close> to
  the platform.
\<close>

definition exo_props :: surface_props where
  "exo_props = \<lparr>useExoPlayer = None, onCodecError = True, onTracksChanged = False\<rparr>"

definition mpv_props :: surface_props where
  "mpv_props = \<lparr>useExoPlayer = Some False, onCodecError = True, onTracksChanged = False\<rparr>"

definition plain_props :: focusable_props where
  "plain_props = \<lparr>enableTVFocus = None, preset = Some card, focusBorderRadius = None,
     focusScale = None, focusRingWidth = None, onFocus = True, onBlur = True,
     focusable = None, activeOpacity = None\<rparr>"

section \<open>Lower case and the case-insensitive comparison agree\<close>

lemma of_char_lower:
  "(of_char (toLowerCase_char c) :: nat) =
     (let n = of_char c in if (65 \<le> n \<and> n \<le> 90) \<or> (192 \<le> n \<and> n \<le> 222 \<and> n \<noteq> 215) then n + 32 else n)"
  using nat_of_char_less_256 [of c] by (auto simp: toLowerCase_char_def Let_def)

lemma Canonicalize_toLowerCase_char: "Canonicalize (toLowerCase_char c) = Canonicalize c"
  unfolding Canonicalize_def of_char_lower by (auto simp: Let_def)

lemma toLowerCase_char_eq_iff:
  "(toLowerCase_char c = toLowerCase_char p) = ((of_char (toLowerCase_char c) :: nat) = of_char (toLowerCase_char p))"
  by (metis char_of_char)

lemma lower_of_canon_nat:
  fixes n :: nat
  assumes "n < 256"
  shows "lower_of_canon
           (if (97 \<le> n \<and> n \<le> 122) \<or> (224 \<le> n \<and> n \<le> 254 \<and> n \<noteq> 247) then n - 32
            else if n = 181 then 924 else if n = 255 then 376 else n) =
         (if (65 \<le> n \<and> n \<le> 90) \<or> (192 \<le> n \<and> n \<le> 222 \<and> n \<noteq> 215) then n + 32 else n)"
  using assms by (auto simp: lower_of_canon_def)

lemma lower_of_canon_Canonicalize:
  "lower_of_canon (Canonicalize c) = of_char (toLowerCase_char c)"
  unfolding of_char_lower Canonicalize_def Let_def
  by (rule lower_of_canon_nat) (rule nat_of_char_less_256)

lemma Canonicalize_eq_iff:
  "(Canonicalize c = Canonicalize p) = (toLowerCase_char c = toLowerCase_char p)"
proof
  assume "Canonicalize c = Canonicalize p"
  then have "lower_of_canon (Canonicalize c) = lower_of_canon (Canonicalize p)" by simp
  then show "toLowerCase_char c = toLowerCase_char p"
    by (simp only: lower_of_canon_Canonicalize toLowerCase_char_eq_iff)
next
  assume "toLowerCase_char c = toLowerCase_char p"
  then have "Canonicalize (toLowerCase_char c) = Canonicalize (toLowerCase_char p)" by simp
  then show "Canonicalize c = Canonicalize p"
    by (simp only: Canonicalize_toLowerCase_char)
qed

lemma isLineTerminator_toLowerCase_char: "isLineTerminator (toLowerCase_char c) = isLineTerminator c"
  unfolding isLineTerminator_def of_char_lower by (auto simp: Let_def)

lemma atom_matches_lower: "atom_matches a (toLowerCase_char c) = spec_atom a c"
  by (cases a) (simp_all add: Canonicalize_toLowerCase_char Canonicalize_eq_iff isLineTerminator_toLowerCase_char)

section \<open>The matcher finds exactly the matches of the specification\<close>

lemma prefix_match_Nil: "prefix_match [] s"
  by (simp add: prefix_match_def)

lemma prefix_match_One_Nil: "\<not> prefix_match (One a # r) []"
  by (simp add: prefix_match_def)

lemma prefix_match_One_Cons:
  "prefix_match (One a # r) (c # s) = (spec_atom a c \<and> prefix_match r s)"
  unfolding prefix_match_def by (auto simp: Cons_eq_append_conv)

lemma prefix_match_Star_Nil: "prefix_match (Star a # r) [] = prefix_match r []"
  by (simp add: prefix_match_def)

lemma prefix_match_Star_Cons:
  "prefix_match (Star a # r) (c # s) =
     ((spec_atom a c \<and> prefix_match (Star a # r) s) \<or> prefix_match r (c # s))"
proof
  assume "prefix_match (Star a # r) (c # s)"
  then obtain u v post where eq: "c # s = (u @ v) @ post"
    and u: "list_all (spec_atom a) u" and v: "in_lang r v"
    by (auto simp: prefix_match_def)
  show "(spec_atom a c \<and> prefix_match (Star a # r) s) \<or> prefix_match r (c # s)"
  proof (cases u)
    case Nil
    with eq v have "prefix_match r (c # s)" by (auto simp: prefix_match_def)
    then show ?thesis ..
  next
    case (Cons d u')
    with eq u have c: "spec_atom a c"
      and "s = (u' @ v) @ post \<and> list_all (spec_atom a) u' \<and> in_lang r v"
      using v by auto
    then have "prefix_match (Star a # r) s"
      unfolding prefix_match_def in_lang.simps by blast
    with c show ?thesis by simp
  qed
next
  assume "(spec_atom a c \<and> prefix_match (Star a # r) s) \<or> prefix_match r (c # s)"
  then show "prefix_match (Star a # r) (c # s)"
  proof
    assume h: "spec_atom a c \<and> prefix_match (Star a # r) s"
    then obtain u v post where "s = (u @ v) @ post" "list_all (spec_atom a) u" "in_lang r v"
      by (auto simp: prefix_match_def)
    with h have "c # s = ((c # u) @ v) @ post \<and> list_all (spec_atom a) (c # u) \<and> in_lang r v"
      by simp
    then show ?thesis unfolding prefix_match_def in_lang.simps by blast
  next
    assume "prefix_match r (c # s)"
    then obtain w post where "c # s = w @ post" "in_lang r w"
      by (auto simp: prefix_match_def)
    then have "c # s = ([] @ w) @ post \<and> list_all (spec_atom a) [] \<and> in_lang r w" by simp
    then show ?thesis unfolding prefix_match_def in_lang.simps by blast
  qed
qed

lemma matches_here_lower: "matches_here r (toLowerCase s) = prefix_match r s"
proof (induction r s rule: matches_here.induct)
  case (1 s)
  show ?case by (simp add: prefix_match_Nil)
next
  case (2 a r)
  show ?case by (simp add: prefix_match_One_Nil toLowerCase_def)
next
  case (3 a r c s)
  then show ?case by (simp add: prefix_match_One_Cons toLowerCase_def atom_matches_lower)
next
  case (4 a r)
  then show ?case by (simp add: prefix_match_Star_Nil toLowerCase_def)
next
  case (5 a r c s)
  then show ?case by (simp add: prefix_match_Star_Cons toLowerCase_def atom_matches_lower)
qed

lemma some_match_Nil: "some_match r [] = prefix_match r []"
  by (simp add: some_match_def prefix_match_def)

lemma some_match_Cons: "some_match r (c # s) = (prefix_match r (c # s) \<or> some_match r s)"
proof
  assume "some_match r (c # s)"
  then obtain pre w post where eq: "c # s = pre @ w @ post" and w: "in_lang r w"
    by (auto simp: some_match_def)
  show "prefix_match r (c # s) \<or> some_match r s"
  proof (cases pre)
    case Nil
    with eq w show ?thesis by (auto simp: prefix_match_def)
  next
    case (Cons d pre')
    with eq have "s = pre' @ w @ post" by simp
    with w show ?thesis by (auto simp: some_match_def)
  qed
next
  assume "prefix_match r (c # s) \<or> some_match r s"
  then show "some_match r (c # s)"
  proof
    assume "prefix_match r (c # s)"
    then obtain w post where "c # s = [] @ w @ post" "in_lang r w"
      by (auto simp: prefix_match_def)
    then show ?thesis unfolding some_match_def by blast
  next
    assume "some_match r s"
    then obtain pre w post where "s = pre @ w @ post" "in_lang r w"
      by (auto simp: some_match_def)
    then have "c # s = (c # pre) @ w @ post \<and> in_lang r w" by simp
    then show ?thesis unfolding some_match_def by blast
  qed
qed

lemma regex_test_lower: "regex_test r (toLowerCase s) = some_match r s"
proof (induction s)
  case Nil
  show ?case using matches_here_lower [of r "[]"] by (simp add: some_match_Nil toLowerCase_def)
next
  case (Cons c s)
  then show ?case using matches_here_lower [of r "c # s"]
    by (simp add: some_match_Cons toLowerCase_def)
qed

lemma contains_match_iff:
  "RegExp p = Some r \<Longrightarrow> contains_match p s = some_match r s"
  by (auto simp: contains_match_def some_match_def)

lemma some_pattern_lower:
  "\<forall>p \<in> set ps. RegExp p \<noteq> None \<Longrightarrow>
     some_pattern ps (toLowerCase s) = Inr (\<exists>p \<in> set ps. contains_match p s)"
proof (induction ps)
  case Nil
  show ?case by simp
next
  case (Cons p ps)
  then obtain r where r: "RegExp p = Some r" by auto
  with Cons show ?case
    by (simp add: regex_test_lower contains_match_iff)
qed

lemma patterns_count: "length CODEC_ERROR_PATTERNS = 20"
  by (simp add: CODEC_ERROR_PATTERNS_def)

lemma patterns_compile: "\<forall>p \<in> set CODEC_ERROR_PATTERNS. RegExp p \<noteq> None"
  by (simp add: CODEC_ERROR_PATTERNS_def isSyntaxCharacter_def)

lemma isCodecError_iff:
  "isCodecError s = Inr (\<exists>p \<in> set CODEC_ERROR_PATTERNS. contains_match p s)"
  unfolding isCodecError_def Let_def by (rule some_pattern_lower) (rule patterns_compile)

lemma contains_match_code:
  "contains_match p s =
     (case RegExp p of None \<Rightarrow> False | Some r \<Rightarrow> regex_test r (toLowerCase s))"
  by (cases "RegExp p") (simp_all add: contains_match_def regex_test_lower some_match_def)

section \<open>Claims about the classifier\<close>

text \<open>
  C3. A string that contains, in any character case, a match of one of the twenty codec
  error patterns (anywhere in the string, the pattern read as an unanchored regular
  expression) is classified as a codec error.
\<close>

theorem codec_pattern_classified:
  assumes "pattern \<in> set CODEC_ERROR_PATTERNS" and "contains_match pattern s"
  shows "isCodecError s = Inr True"
  using assms by (auto simp: isCodecError_iff)

theorem codec_pattern_classified_witness:
  "''codec.*error'' \<in> set CODEC_ERROR_PATTERNS \<and>
   contains_match ''codec.*error'' ''Video CODEC init Error 7'' \<and>
   isCodecError ''Video CODEC init Error 7'' = Inr True"
proof -
  have p: "''codec.*error'' \<in> set CODEC_ERROR_PATTERNS"
    by code_simp
  have "case RegExp ''codec.*error'' of
          None \<Rightarrow> False
        | Some r \<Rightarrow> regex_test r (toLowerCase ''Video CODEC init Error 7'')"
    by code_simp
  then have m: "contains_match ''codec.*error'' ''Video CODEC init Error 7''"
    by (simp only: contains_match_code)
  from p m codec_pattern_classified [OF p m] show ?thesis by simp
qed

text \<open>
  C4. A string in which none of the patterns has a match is classified as another error;
  so is the empty string; and the classifier answers on every string, it never throws.
\<close>

theorem no_pattern_other_error:
  "((\<forall>pattern \<in> set CODEC_ERROR_PATTERNS. \<not> contains_match pattern s) \<longrightarrow>
      isCodecError s = Inr False) \<and>
   (\<exists>b. isCodecError s = Inr b) \<and>
   isCodecError [] = Inr False"
proof (intro conjI impI)
  assume "\<forall>pattern \<in> set CODEC_ERROR_PATTERNS. \<not> contains_match pattern s"
  then show "isCodecError s = Inr False" by (simp add: isCodecError_iff)
next
  show "\<exists>b. isCodecError s = Inr b" by (simp add: isCodecError_iff)
next
  show "isCodecError [] = Inr False"
    by code_simp
qed

theorem no_pattern_other_error_witness:
  "\<not> (\<exists>pattern \<in> set CODEC_ERROR_PATTERNS. contains_match pattern ''Network timeout'') \<and>
   isCodecError ''Network timeout'' = Inr False"
proof -
  have "list_all
          (\<lambda>p. \<not> (case RegExp p of
                      None \<Rightarrow> False
                    | Some r \<Rightarrow> regex_test r (toLowerCase ''Network timeout'')))
          CODEC_ERROR_PATTERNS"
    by code_simp
  then have h: "\<forall>pattern \<in> set CODEC_ERROR_PATTERNS.
                  \<not> contains_match pattern ''Network timeout''"
    by (simp only: contains_match_code list_all_iff)
  from h no_pattern_other_error [of "''Network timeout''"] show ?thesis by blast
qed

section \<open>The order of the error parts\<close>

lemma sequence_results_strings: "sequence_results (map Inr xs) = Inr xs"
  by (induction xs) simp_all

lemma Array_join_strings: "Array_join sep (map JStr xs) = Inr (join_strings sep xs)"
proof -
  have "map (\<lambda>x. if x = JUndefined \<or> x = JNull then Inr [] else ToString x) (map JStr xs) =
        map Inr xs"
    by (induction xs) simp_all
  then have "Array_join sep (map JStr xs) = join_results sep (map Inr xs)"
    by (simp only: Array_join_def)
  then show ?thesis by (simp add: join_results_def sequence_results_strings)
qed

lemma join_strings_part:
  "x \<in> set xs \<Longrightarrow> \<exists>pre post. join_strings sep xs = pre @ x @ post"
proof (induction sep xs rule: join_strings.induct)
  case (1 sep)
  then show ?case by simp
next
  case (2 sep y)
  then have "join_strings sep [y] = [] @ x @ []" by simp
  then show ?case by blast
next
  case (3 sep y z zs)
  show ?case
  proof (cases "x = y")
    case True
    then have "join_strings sep (y # z # zs) = [] @ x @ (sep @ join_strings sep (z # zs))" by simp
    then show ?thesis by blast
  next
    case False
    with 3 obtain pre post where "join_strings sep (z # zs) = pre @ x @ post" by auto
    then have "join_strings sep (y # z # zs) = (y @ sep @ pre) @ x @ post" by simp
    then show ?thesis by blast
  qed
qed

lemma contains_match_embedded:
  assumes "contains_match p s"
  shows "contains_match p (pre @ s @ post)"
proof -
  from assms obtain r a w b where "RegExp p = Some r" "s = a @ w @ b" "in_lang r w"
    by (auto simp: contains_match_def)
  then have "RegExp p = Some r \<and> pre @ s @ post = (pre @ a) @ w @ (b @ post) \<and> in_lang r w"
    by simp
  then show ?thesis unfolding contains_match_def by blast
qed

lemma isCodecError_part:
  assumes "part \<in> set xs" and "isCodecError part = Inr True"
  shows "isCodecError (join_strings sep xs) = Inr True"
proof -
  from assms(2) obtain p where p: "p \<in> set CODEC_ERROR_PATTERNS" "contains_match p part"
    by (auto simp: isCodecError_iff)
  from assms(1) obtain pre post where "join_strings sep xs = pre @ part @ post"
    using join_strings_part by blast
  with p(2) have "contains_match p (join_strings sep xs)"
    by (simp add: contains_match_embedded)
  with p(1) show ?thesis by (auto simp: isCodecError_iff)
qed

text \<open>
  C5, as the specification states it, fails: the parts \<open>decoder\<close> and \<open>error\<close> joined
  in this order match \<open>decoder.*error\<close>, and joined in the other order match no pattern.
  The handler finds these parts, in the first order, in the payload
  \<open>{error: {errorString: "decoder", errorCode: "error"}}\<close>.
\<close>

theorem part_order_counterexample:
  "mset [''decoder'', ''error''] = mset [''error'', ''decoder''] \<and>
   isCodecError (join_strings '' '' [''decoder'', ''error'']) = Inr True \<and>
   isCodecError (join_strings '' '' [''error'', ''decoder'']) = Inr False \<and>
   extractErrorString
     (JObj [(''error'', JObj [(''errorString'', JStr ''decoder''),
                              (''errorCode'', JStr ''error'')])]) =
     Inr (Some (join_strings '' '' [''decoder'', ''error'']))"
proof -
  have "mset [''decoder'', ''error''] = mset [''error'', ''decoder'']" by simp
  moreover have "isCodecError (join_strings '' '' [''decoder'', ''error'']) = Inr True"
    by code_simp
  moreover have "isCodecError (join_strings '' '' [''error'', ''decoder'']) = Inr False"
    by code_simp
  moreover have "extractErrorString
     (JObj [(''error'', JObj [(''errorString'', JStr ''decoder''),
                              (''errorCode'', JStr ''error'')])]) =
     Inr (Some (join_strings '' '' [''decoder'', ''error'']))"
    by code_simp
  ultimately show ?thesis by simp
qed

text \<open>
  C5, amended. When one of the parts is a codec error on its own, the parts joined with a
  space (\<open>join_strings\<close> is \<open>Array_join\<close> on strings) are a codec error in every
  order. A match that needs several parts depends on their order.
\<close>

theorem part_order_amended:
  assumes "mset xs = mset ys" and "part \<in> set xs" and "isCodecError part = Inr True"
  shows "isCodecError (join_strings '' '' xs) = Inr True \<and>
         isCodecError (join_strings '' '' ys) = Inr True"
proof -
  from assms(1) have "set xs = set ys" by (rule mset_eq_setD)
  with assms(2) have "part \<in> set ys" by simp
  with assms show ?thesis by (simp add: isCodecError_part)
qed

theorem part_order_amended_witness:
  "mset [''hevc decoder failed'', ''x''] = mset [''x'', ''hevc decoder failed''] \<and>
   ''hevc decoder failed'' \<in> set [''hevc decoder failed'', ''x''] \<and>
   isCodecError ''hevc decoder failed'' = Inr True \<and>
   isCodecError (join_strings '' '' [''hevc decoder failed'', ''x'']) = Inr True \<and>
   isCodecError (join_strings '' '' [''x'', ''hevc decoder failed'']) = Inr True"
proof -
  have a: "mset [''hevc decoder failed'', ''x''] = mset [''x'', ''hevc decoder failed'']" by simp
  have b: "''hevc decoder failed'' \<in> set [''hevc decoder failed'', ''x'']" by simp
  have c: "isCodecError ''hevc decoder failed'' = Inr True"
    by code_simp
  from a b c part_order_amended [OF a b c] show ?thesis by simp
qed

section \<open>What the handlers of the surface call\<close>

lemma isCodecError_cases: "isCodecError s = Inr True \<or> isCodecError s = Inr False"
  by (auto simp: isCodecError_iff)

text \<open>
  A payload of \<open>undefined\<close> has no parts and no JSON text: the handler throws before it
  calls anything.
\<close>

lemma handleExoError_undefined: "handleExoError props JUndefined = Inl TypeError"
  by (simp add: handleExoError_def extractErrorString_def Array_join_def)

lemma MpvPlayer_event_shape:
  assumes "MpvPlayer_event props ev = Inr calls" and "c \<in> set calls"
  shows "(\<exists>d w h. c = OnLoad d (NaturalSize w h) None None) \<or> (\<exists>t. c = OnProgress t t) \<or>
         c = OnEnd \<or> (\<exists>e. c = OnError e) \<or> (\<exists>a t. c = OnTracksChanged a t)"
proof (cases ev)
  case (MpvLoad d)
  with assms show ?thesis by (cases d) auto
next
  case (MpvProgress d)
  with assms show ?thesis by (cases d) auto
qed (use assms in \<open>auto simp: handleMpvEnd_def handleMpvError_def split: if_splits\<close>)

lemma VideoSurface_event_MPV_shape:
  assumes "active_engine props = MPV" and "VideoSurface_event props ev = Inr calls"
    and "c \<in> set calls"
  shows "(\<exists>d w h. c = OnLoad d (NaturalSize w h) None None) \<or> (\<exists>t. c = OnProgress t t) \<or>
         c = OnEnd \<or> (\<exists>e. c = OnError e) \<or> (\<exists>a t. c = OnTracksChanged a t)"
proof (cases ev)
  case (FromExo x)
  with assms show ?thesis by simp
next
  case (FromMpv x)
  with assms have "MpvPlayer_event props x = Inr calls" by simp
  from this assms(3) show ?thesis by (rule MpvPlayer_event_shape)
qed

lemma count_handleExoError:
  "handleExoError props error = Inr calls \<Longrightarrow> count_list calls OnCodecError \<le> 1"
  by (auto simp: handleExoError_def split: sum.splits option.splits bool.splits if_splits)

lemma handleExoLoad_no_fallback: "OnCodecError \<notin> set (handleExoLoad props d)"
  by (cases d) (simp add: Let_def)

lemma handleExoProgress_no_fallback: "OnCodecError \<notin> set (handleExoProgress d)"
  by (cases d) simp

lemma count_list_0: "x \<notin> set xs \<Longrightarrow> count_list xs x = 0"
  by (induction xs) auto

lemma Video_event_count:
  "Video_event props ev = Inr calls \<Longrightarrow> count_list calls OnCodecError \<le> 1"
proof (cases ev)
  case (ExoError e)
  assume "Video_event props ev = Inr calls"
  with ExoError have "handleExoError props e = Inr calls" by simp
  then show ?thesis by (rule count_handleExoError)
qed (auto simp: handleExoEnd_def handleExoBuffer_def handleExoSeek_def
      count_list_0 handleExoLoad_no_fallback handleExoProgress_no_fallback)

lemma handleMpvLoad_no_fallback: "OnCodecError \<notin> set (handleMpvLoad d)"
  by (cases d) simp

lemma handleMpvProgress_no_fallback: "OnCodecError \<notin> set (handleMpvProgress d)"
  by (cases d) simp

lemma MpvPlayer_event_no_fallback:
  "MpvPlayer_event props ev = Inr calls \<Longrightarrow> OnCodecError \<notin> set calls"
  by (cases ev) (auto simp: handleMpvEnd_def handleMpvError_def
      handleMpvLoad_no_fallback handleMpvProgress_no_fallback)

lemma VideoSurface_event_count:
  assumes "VideoSurface_event props ev = Inr calls"
  shows "count_list calls OnCodecError \<le> 1"
proof (cases ev)
  case (FromExo x)
  show ?thesis
  proof (cases "active_engine props = ExoPlayer")
    case True
    with assms FromExo have "Video_event props x = Inr calls" by simp
    then show ?thesis by (rule Video_event_count)
  next
    case False
    with assms FromExo show ?thesis by simp
  qed
next
  case (FromMpv x)
  show ?thesis
  proof (cases "active_engine props = MPV")
    case True
    with assms FromMpv have "MpvPlayer_event props x = Inr calls" by simp
    then have "OnCodecError \<notin> set calls" by (rule MpvPlayer_event_no_fallback)
    then show ?thesis by (simp add: count_list_0)
  next
    case False
    with assms FromMpv show ?thesis by simp
  qed
qed

lemma VideoSurface_event_MPV:
  "active_engine props = MPV \<Longrightarrow> VideoSurface_event props ev = Inr calls \<Longrightarrow>
     OnCodecError \<notin> set calls"
  by (cases ev) (auto dest: MpvPlayer_event_no_fallback)

lemma run_session_MPV:
  "active_engine props = MPV \<Longrightarrow> run_session props evs = Inr (props', calls) \<Longrightarrow>
     OnCodecError \<notin> set calls"
proof (induction evs arbitrary: calls)
  case Nil
  then show ?case by simp
next
  case (Cons ev evs)
  from Cons.prems(2) obtain first rest where
    first: "VideoSurface_event props ev = Inr first" and
    rest: "run_session (if OnCodecError \<in> set first then engineFallback props else props) evs
             = Inr (props', rest)" and
    calls: "calls = first @ rest"
    by (auto split: sum.splits prod.splits)
  from Cons.prems(1) first have nf: "OnCodecError \<notin> set first"
    by (rule VideoSurface_event_MPV)
  with rest have "run_session props evs = Inr (props', rest)" by simp
  with Cons.IH Cons.prems(1) have "OnCodecError \<notin> set rest" by blast
  with nf calls show ?case by simp
qed

lemma active_engine_engineFallback: "active_engine (engineFallback props) = MPV"
  by (simp add: active_engine_def engineFallback_def)

lemma run_session_count:
  "run_session props evs = Inr (props', calls) \<Longrightarrow> count_list calls OnCodecError \<le> 1"
proof (induction evs arbitrary: props calls)
  case Nil
  then show ?case by simp
next
  case (Cons ev evs)
  from Cons.prems obtain first rest where
    first: "VideoSurface_event props ev = Inr first" and
    rest: "run_session (if OnCodecError \<in> set first then engineFallback props else props) evs
             = Inr (props', rest)" and
    calls: "calls = first @ rest"
    by (auto split: sum.splits prod.splits)
  show ?case
  proof (cases "OnCodecError \<in> set first")
    case True
    with rest have "run_session (engineFallback props) evs = Inr (props', rest)" by simp
    then have "OnCodecError \<notin> set rest"
      using active_engine_engineFallback run_session_MPV by blast
    then have "count_list rest OnCodecError = 0" by (rule count_list_0)
    moreover from first have "count_list first OnCodecError \<le> 1"
      by (rule VideoSurface_event_count)
    ultimately show ?thesis using calls by simp
  next
    case False
    then have "count_list first OnCodecError = 0" by (rule count_list_0)
    moreover from False rest Cons.IH have "count_list rest OnCodecError \<le> 1" by simp
    ultimately show ?thesis using calls by simp
  qed
qed

section \<open>Claims about the playback surface\<close>

text \<open>
  C1. With ExoPlayer active, an error event whose payload normalizes to the string
  \<open>errorString\<close> makes the surface call \<open>onCodecError\<close> and not \<open>onError\<close> when
  \<open>errorString\<close> classifies as a codec error, and \<open>onError\<close> with \<open>errorString\<close>
  and not \<open>onCodecError\<close> otherwise. (\<open>onCodecError\<close> is an optional prop: when it
  was not passed, a codec error calls nothing.) The payload
  \<open>{error: {errorCode: "MediaCodecVideoDecoderException"}}\<close> is a codec error.
\<close>

theorem exo_error_dispatch:
  "(active_engine props = ExoPlayer \<and> extractErrorString error = Inr (Some errorString) \<longrightarrow>
      VideoSurface_event props (FromExo (ExoError error)) =
        Inr (if isCodecError errorString = Inr True
             then (if onCodecError props then [OnCodecError] else [])
             else [OnError errorString])) \<and>
   (active_engine props = ExoPlayer \<longrightarrow>
      VideoSurface_event props
        (FromExo (ExoError (JObj [(''error'',
            JObj [(''errorCode'', JStr ''MediaCodecVideoDecoderException'')])]))) =
        Inr (if onCodecError props then [OnCodecError] else []))"
proof (intro conjI impI)
  assume h: "active_engine props = ExoPlayer \<and> extractErrorString error = Inr (Some errorString)"
  from isCodecError_cases [of errorString] h
  show "VideoSurface_event props (FromExo (ExoError error)) =
        Inr (if isCodecError errorString = Inr True
             then (if onCodecError props then [OnCodecError] else [])
             else [OnError errorString])"
    by (auto simp: handleExoError_def)
next
  assume h: "active_engine props = ExoPlayer"
  have e: "extractErrorString (JObj [(''error'',
            JObj [(''errorCode'', JStr ''MediaCodecVideoDecoderException'')])])
           = Inr (Some ''MediaCodecVideoDecoderException'')"
    by code_simp
  have c: "isCodecError ''MediaCodecVideoDecoderException'' = Inr True"
    by code_simp
  from h e c show "VideoSurface_event props
        (FromExo (ExoError (JObj [(''error'',
            JObj [(''errorCode'', JStr ''MediaCodecVideoDecoderException'')])]))) =
        Inr (if onCodecError props then [OnCodecError] else [])"
    by (simp add: handleExoError_def)
qed

theorem exo_error_dispatch_witness:
  "active_engine exo_props = ExoPlayer \<and>
   extractErrorString (JObj [(''message'', JStr ''Network timeout'')]) =
     Inr (Some ''Network timeout'') \<and>
   VideoSurface_event exo_props
     (FromExo (ExoError (JObj [(''message'', JStr ''Network timeout'')]))) =
     Inr [OnError ''Network timeout''] \<and>
   VideoSurface_event exo_props
     (FromExo (ExoError (JObj [(''error'',
         JObj [(''errorCode'', JStr ''MediaCodecVideoDecoderException'')])]))) =
     Inr [OnCodecError]"
proof -
  have a: "active_engine exo_props = ExoPlayer"
    by (simp add: active_engine_def exo_props_def)
  have b: "extractErrorString (JObj [(''message'', JStr ''Network timeout'')]) =
     Inr (Some ''Network timeout'')"
    by code_simp
  have c: "isCodecError ''Network timeout'' = Inr False"
    by code_simp
  have d: "onCodecError exo_props" by (simp add: exo_props_def)
  from a b c d
    exo_error_dispatch [of exo_props "JObj [(''message'', JStr ''Network timeout'')]"
      "''Network timeout''"]
  show ?thesis by simp
qed

text \<open>
  C2. In a session of any events, \<open>onCodecError\<close> is called at most once, so the engine
  falls back at most once. After a codec error has switched the surface to MPV, the next
  error, be it classified as a codec error or not, is passed to \<open>onError\<close> as it is and
  the engine stays.
\<close>

theorem single_fallback:
  "(run_session props evs = Inr (props', calls) \<longrightarrow> count_list calls OnCodecError \<le> 1) \<and>
   (active_engine props = ExoPlayer \<and> onCodecError props \<and>
    extractErrorString first = Inr (Some s) \<and> isCodecError s = Inr True \<longrightarrow>
      run_session props [FromExo (ExoError first), FromMpv (MpvError second)] =
        Inr (engineFallback props, [OnCodecError, OnError second]))"
proof (intro conjI impI)
  assume "run_session props evs = Inr (props', calls)"
  then show "count_list calls OnCodecError \<le> 1" by (rule run_session_count)
next
  assume "active_engine props = ExoPlayer \<and> onCodecError props \<and>
    extractErrorString first = Inr (Some s) \<and> isCodecError s = Inr True"
  then show "run_session props [FromExo (ExoError first), FromMpv (MpvError second)] =
        Inr (engineFallback props, [OnCodecError, OnError second])"
    by (simp add: handleExoError_def active_engine_engineFallback handleMpvError_def)
qed

theorem single_fallback_witness:
  "run_session exo_props
     [FromExo (ExoError (JStr ''decoder failed'')), FromMpv (MpvError ''decoder failed'')] =
   Inr (engineFallback exo_props, [OnCodecError, OnError ''decoder failed'']) \<and>
   count_list [OnCodecError, OnError ''decoder failed''] OnCodecError \<le> 1"
proof -
  have a: "active_engine exo_props = ExoPlayer \<and> onCodecError exo_props"
    by (simp add: active_engine_def exo_props_def)
  have b: "extractErrorString (JStr ''decoder failed'') = Inr (Some ''decoder failed'')"
    by code_simp
  have c: "isCodecError ''decoder failed'' = Inr True"
    by code_simp
  have r: "run_session exo_props
     [FromExo (ExoError (JStr ''decoder failed'')), FromMpv (MpvError ''decoder failed'')] =
   Inr (engineFallback exo_props, [OnCodecError, OnError ''decoder failed''])"
    using a b c single_fallback [of exo_props _ _ _ "JStr ''decoder failed''" "''decoder failed''" "''decoder failed''"]
    by blast
  with single_fallback [of exo_props
      "[FromExo (ExoError (JStr ''decoder failed'')), FromMpv (MpvError ''decoder failed'')]"
      "engineFallback exo_props" "[OnCodecError, OnError ''decoder failed'']"]
  show ?thesis by blast
qed

text \<open>
  C6, as the specification states it, fails: \<open>MpvPlayer\<close> is given no \<open>onSeek\<close> and
  no \<open>onBuffer\<close> handler, so with MPV active a seek or a buffering event is passed on to
  no callback.
\<close>

theorem mpv_seek_buffer_counterexample:
  "active_engine mpv_props = MPV \<and>
   VideoSurface_event mpv_props (FromMpv (MpvSeek 5)) = Inr [] \<and>
   VideoSurface_event mpv_props (FromMpv (MpvBuffer True)) = Inr []"
  by (simp add: active_engine_def mpv_props_def)

text \<open>
  C6, amended. With ExoPlayer active the surface passes on every \<open>onLoad\<close>,
  \<open>onProgress\<close>, \<open>onSeek\<close>, \<open>onEnd\<close> and \<open>onBuffer\<close> event in the common
  shape (the natural size 1920 by 1080 when the player gave none, the playable duration
  the current time when the player gave none or zero, and \<open>onLoad\<close> after
  \<open>onTracksChanged\<close> when there are tracks). With MPV active it passes on every
  \<open>onLoad\<close>, \<open>onProgress\<close> and \<open>onEnd\<close> event in the common shape, and it never
  calls \<open>onSeek\<close> or \<open>onBuffer\<close>.
\<close>

theorem playback_events_forwarded:
  "(active_engine props = ExoPlayer \<longrightarrow>
      (\<exists>pre. VideoSurface_event props
                (FromExo (ExoLoad (ExoLoadData duration naturalSize audioTracks textTracks))) =
              Inr (pre @ [OnLoad duration
                            (case naturalSize of Some sz \<Rightarrow> sz | None \<Rightarrow> NaturalSize 1920 1080)
                            audioTracks textTracks])) \<and>
      VideoSurface_event props (FromExo (ExoProgress (ExoProgressData currentTime playable))) =
        Inr [OnProgress currentTime
               (case playable of Some p \<Rightarrow> if p \<noteq> 0 then p else currentTime
                               | None \<Rightarrow> currentTime)] \<and>
      VideoSurface_event props (FromExo (ExoSeek currentTime)) = Inr [OnSeek currentTime] \<and>
      VideoSurface_event props (FromExo ExoEnd) = Inr [OnEnd] \<and>
      VideoSurface_event props (FromExo (ExoBuffer isBuffering)) = Inr [OnBuffer isBuffering]) \<and>
   (active_engine props = MPV \<longrightarrow>
      VideoSurface_event props (FromMpv (MpvLoad (MpvLoadData duration width height))) =
        Inr [OnLoad duration (NaturalSize width height) None None] \<and>
      VideoSurface_event props (FromMpv (MpvProgress (MpvProgressData currentTime duration))) =
        Inr [OnProgress currentTime currentTime] \<and>
      VideoSurface_event props (FromMpv MpvEnd) = Inr [OnEnd] \<and>
      (\<forall>ev calls t b. VideoSurface_event props ev = Inr calls \<longrightarrow>
         OnSeek t \<notin> set calls \<and> OnBuffer b \<notin> set calls))"
proof (intro conjI impI allI)
  fix ev calls t b
  assume m: "active_engine props = MPV" and r: "VideoSurface_event props ev = Inr calls"
  show "OnSeek t \<notin> set calls"
    using VideoSurface_event_MPV_shape [OF m r, of "OnSeek t"] by auto
  show "OnBuffer b \<notin> set calls"
    using VideoSurface_event_MPV_shape [OF m r, of "OnBuffer b"] by auto
qed (simp_all add: handleExoSeek_def handleExoEnd_def handleExoBuffer_def handleMpvEnd_def Let_def)

theorem playback_events_forwarded_witness:
  "active_engine exo_props = ExoPlayer \<and>
   VideoSurface_event exo_props (FromExo (ExoSeek 5)) = Inr [OnSeek 5] \<and>
   VideoSurface_event exo_props (FromExo (ExoBuffer True)) = Inr [OnBuffer True] \<and>
   active_engine mpv_props = MPV \<and>
   VideoSurface_event mpv_props (FromMpv (MpvLoad (MpvLoadData 90 640 480))) =
     Inr [OnLoad 90 (NaturalSize 640 480) None None] \<and>
   VideoSurface_event mpv_props (FromMpv MpvEnd) = Inr [OnEnd] \<and>
   OnSeek 5 \<notin> set [OnEnd]"
proof -
  have a: "active_engine exo_props = ExoPlayer"
    by (simp add: active_engine_def exo_props_def)
  have b: "active_engine mpv_props = MPV"
    by (simp add: active_engine_def mpv_props_def)
  from a playback_events_forwarded [of exo_props 0 None None None 5 None True 0 0]
  have 1: "VideoSurface_event exo_props (FromExo (ExoSeek 5)) = Inr [OnSeek 5] \<and>
   VideoSurface_event exo_props (FromExo (ExoBuffer True)) = Inr [OnBuffer True]"
    by blast
  from b playback_events_forwarded [of mpv_props 90 None None None 0 None True 640 480]
  have 2: "VideoSurface_event mpv_props (FromMpv (MpvLoad (MpvLoadData 90 640 480))) =
     Inr [OnLoad 90 (NaturalSize 640 480) None None] \<and>
   VideoSurface_event mpv_props (FromMpv MpvEnd) = Inr [OnEnd] \<and>
      (\<forall>ev calls t b. VideoSurface_event mpv_props ev = Inr calls \<longrightarrow>
         OnSeek t \<notin> set calls \<and> OnBuffer b \<notin> set calls)"
    by blast
  then have "OnSeek 5 \<notin> set [OnEnd]" by blast
  with a b 1 2 show ?thesis by blast
qed

text \<open>
  C10. With MPV active, every \<open>onProgress\<close> that the surface passes on has its playable
  duration equal to its current time.
\<close>

theorem mpv_progress_playable:
  assumes "active_engine props = MPV"
    and "VideoSurface_event props ev = Inr calls"
    and "OnProgress currentTime playableDuration \<in> set calls"
  shows "playableDuration = currentTime"
  using VideoSurface_event_MPV_shape [OF assms] by auto

theorem mpv_progress_playable_witness:
  "active_engine mpv_props = MPV \<and>
   VideoSurface_event mpv_props (FromMpv (MpvProgress (MpvProgressData 12.5 100))) =
     Inr [OnProgress 12.5 12.5] \<and>
   OnProgress 12.5 12.5 \<in> set [OnProgress 12.5 12.5]"
proof -
  have a: "active_engine mpv_props = MPV"
    by (simp add: active_engine_def mpv_props_def)
  have b: "VideoSurface_event mpv_props (FromMpv (MpvProgress (MpvProgressData 12.5 100))) =
     Inr [OnProgress 12.5 12.5]"
    using a by simp
  have c: "OnProgress 12.5 12.5 \<in> set [OnProgress 12.5 (12.5::real)]" by simp
  from a b c mpv_progress_playable [OF a b c] show ?thesis by simp
qed

section \<open>Claims about the focusable controls\<close>

text \<open>
  C7. With focus visuals disabled, neither control renders a scale transform, a focus ring
  or a shadow, in any state; \<open>FocusableTouchableOpacity\<close> renders the bare touchable;
  and a focus or blur event leaves the state as it is and calls nothing but the caller's
  \<open>onFocus\<close> or \<open>onBlur\<close>, if passed, with the event.
\<close>

theorem focus_visuals_disabled:
  assumes "\<not> enabled isTV props"
  shows "scale (FocusablePressable isTV props st) = None \<and>
         focusRing (FocusablePressable isTV props st) = None \<and>
         shadow (FocusablePressable isTV props st) = False \<and>
         scale (FocusableTouchableOpacity isTV props st) = None \<and>
         focusRing (FocusableTouchableOpacity isTV props st) = None \<and>
         shadow (FocusableTouchableOpacity isTV props st) = False \<and>
         wrapper (FocusableTouchableOpacity isTV props st) = False \<and>
         handleFocus isTV props e st = (st, if onFocus props then [OnFocus e] else []) \<and>
         handleBlur isTV props e st = (st, if onBlur props then [OnBlur e] else [])"
  using assms
  by (simp add: FocusablePressable_def FocusableTouchableOpacity_def containerAnimatedStyle_def
      handleFocus_def handleBlur_def)

theorem focus_visuals_disabled_witness:
  "\<not> enabled False plain_props \<and>
   scale (FocusableTouchableOpacity False plain_props initial_state) = None \<and>
   focusRing (FocusablePressable False plain_props initial_state) = None \<and>
   handleFocus False plain_props (7::nat) initial_state = (initial_state, [OnFocus 7])"
proof -
  have a: "\<not> enabled False plain_props" by (simp add: enabled_def plain_props_def)
  have b: "onFocus plain_props" by (simp add: plain_props_def)
  from a b focus_visuals_disabled [OF a, of initial_state "7::nat"] show ?thesis by simp
qed

text \<open>
  C8. With focus visuals enabled, a focus event followed by a blur event less than 140 ms
  later leaves the control unfocused, with an animation towards 0 that starts from the
  progress reached; 140 ms or more after the blur the progress is 0 and no animation
  runs.
\<close>

theorem focus_then_blur:
  assumes "enabled isTV props" and "0 \<le> dt" and "dt < 140"
  shows
    "(let st1 = fst (handleFocus isTV props e1 st0);
          st2 = advance dt st1;
          st3 = fst (handleBlur isTV props e2 st2)
      in isFocused st1 \<and> target st1 = 1 \<and>
         \<not> isFocused st3 \<and> target st3 = 0 \<and>
         animation st3 = Some (Timing (focusProgress st2) 0 0) \<and>
         (\<forall>dt' \<ge> 140. focusProgress (advance dt' st3) = 0 \<and>
                       animation (advance dt' st3) = None \<and>
                       \<not> isFocused (advance dt' st3)))"
  using assms
  by (simp add: handleFocus_def handleBlur_def animateTo_def advance_def target_def Let_def)

theorem focus_then_blur_witness:
  "enabled True plain_props \<and>
   focusProgress (advance 70 (fst (handleFocus True plain_props (1::nat) initial_state))) = 7 / 8 \<and>
   focusProgress
     (advance 140
        (fst (handleBlur True plain_props (2::nat)
           (advance 70 (fst (handleFocus True plain_props (1::nat) initial_state)))))) = 0"
proof -
  have a: "enabled True plain_props" by (simp add: enabled_def plain_props_def)
  have b: "(0::real) \<le> 70" "(70::real) < 140" by simp_all
  have c: "focusProgress (advance 70 (fst (handleFocus True plain_props (1::nat) initial_state))) = 7 / 8"
    using a by (simp add: handleFocus_def animateTo_def advance_def initial_state_def easing_def
        power3_eq_cube)
  from focus_then_blur [OF a b, of "1::nat" initial_state "2::nat"]
  have "focusProgress
     (advance 140
        (fst (handleBlur True plain_props (2::nat)
           (advance 70 (fst (handleFocus True plain_props (1::nat) initial_state)))))) = 0"
    by (simp add: Let_def)
  with a c show ?thesis by simp
qed

text \<open>
  C9. The six presets have the literal values of the table, and a control that supplies
  neither a preset nor an override resolves to scale 1.06, ring width 3 and border radius
  12; with a preset and no override it resolves to the values of the preset.
\<close>

theorem focus_presets:
  "tvFocusPresets card = \<lparr>TVFocusPreset.focusScale = 1.05, TVFocusPreset.focusRingWidth = 3,
       TVFocusPreset.focusBorderRadius = 16\<rparr> \<and>
   tvFocusPresets poster = \<lparr>TVFocusPreset.focusScale = 1.06, TVFocusPreset.focusRingWidth = 3,
       TVFocusPreset.focusBorderRadius = 12\<rparr> \<and>
   tvFocusPresets pill = \<lparr>TVFocusPreset.focusScale = 1.04, TVFocusPreset.focusRingWidth = 3,
       TVFocusPreset.focusBorderRadius = 999\<rparr> \<and>
   tvFocusPresets button = \<lparr>TVFocusPreset.focusScale = 1.04, TVFocusPreset.focusRingWidth = 3,
       TVFocusPreset.focusBorderRadius = 18\<rparr> \<and>
   tvFocusPresets icon = \<lparr>TVFocusPreset.focusScale = 1.06, TVFocusPreset.focusRingWidth = 3,
       TVFocusPreset.focusBorderRadius = 999\<rparr> \<and>
   tvFocusPresets listRow = \<lparr>TVFocusPreset.focusScale = 1.03, TVFocusPreset.focusRingWidth = 3,
       TVFocusPreset.focusBorderRadius = 14\<rparr> \<and>
   resolvedScale (props\<lparr>preset := None, focusScale := None\<rparr>) = 1.06 \<and>
   resolvedRingWidth (props\<lparr>preset := None, focusRingWidth := None\<rparr>) = 3 \<and>
   resolvedBorderRadius (props\<lparr>preset := None, focusBorderRadius := None\<rparr>) = 12 \<and>
   resolvedScale (props\<lparr>preset := Some name, focusScale := None\<rparr>) =
     TVFocusPreset.focusScale (tvFocusPresets name) \<and>
   resolvedRingWidth (props\<lparr>preset := Some name, focusRingWidth := None\<rparr>) =
     TVFocusPreset.focusRingWidth (tvFocusPresets name) \<and>
   resolvedBorderRadius (props\<lparr>preset := Some name, focusBorderRadius := None\<rparr>) =
     TVFocusPreset.focusBorderRadius (tvFocusPresets name)"
  by (simp add: resolvedScale_def resolvedRingWidth_def resolvedBorderRadius_def resolvedPreset_def)

end
